theory Spec2Isabelle
  imports Complex_Main "HOL-Library.Word" "HOL-Library.Multiset" "HOL-Library.Char_ord"
    "HOL-Library.List_Lexorder"
begin

section \<open>The local work store (services/db) over a model of the storage engine\<close>

text \<open>
  The store is three asynchronous functions, \<open>initDB\<close>, \<open>saveWork\<close> and
  \<open>getAllWorks\<close>, written against the browser's keyed storage engine. Each returns a
  promise; the model of a call gives the calls of \<open>resolve\<close> and \<open>reject\<close> its
  handlers make, in order, the engine's databases after the call, and the answers of
  the engine the call has not asked for.

  The engine is not part of the repository. It is modelled as the code meets it: an
  open request and a store request each either fire their error event or are carried
  out on the state, and a read-write transaction whose request has succeeded either
  commits or aborts, undoing its write. Which of these happens is an input of the
  model, the list of the engine's answers, one per request in the order the requests
  are made.
\<close>

subsection \<open>Numbers\<close>

text \<open>
  A \<open>number\<close> of the source is a finite value, an infinity or NaN. Finite values are
  rationals here; the difference of two finite values has the sign of their exact
  difference, which is all the sort looks at.
\<close>

datatype number = Finite rat | Infinity | NegInfinity | NaN

fun is_finite :: "number \<Rightarrow> bool" where
  "is_finite (Finite q) = True"
| "is_finite n = False"

text \<open>The value of a finite number.\<close>

fun finite_value :: "number \<Rightarrow> rat" where
  "finite_value (Finite q) = q"
| "finite_value n = 0"

text \<open>\<open>a - b\<close>\<close>

fun number_minus :: "number \<Rightarrow> number \<Rightarrow> number" where
  "number_minus NaN b = NaN"
| "number_minus a NaN = NaN"
| "number_minus (Finite p) (Finite q) = Finite (p - q)"
| "number_minus (Finite p) Infinity = NegInfinity"
| "number_minus (Finite p) NegInfinity = Infinity"
| "number_minus Infinity Infinity = NaN"
| "number_minus Infinity b = Infinity"
| "number_minus NegInfinity NegInfinity = NaN"
| "number_minus NegInfinity b = NegInfinity"

text \<open>\<open>a >= b\<close>: false when either side is NaN.\<close>

fun number_ge :: "number \<Rightarrow> number \<Rightarrow> bool" where
  "number_ge NaN b = False"
| "number_ge a NaN = False"
| "number_ge (Finite p) (Finite q) = (q \<le> p)"
| "number_ge Infinity b = True"
| "number_ge a NegInfinity = True"
| "number_ge a b = False"

fun is_negative :: "number \<Rightarrow> bool" where
  "is_negative (Finite q) = (q < 0)"
| "is_negative NegInfinity = True"
| "is_negative n = False"

fun is_positive :: "number \<Rightarrow> bool" where
  "is_positive (Finite q) = (0 < q)"
| "is_positive Infinity = True"
| "is_positive n = False"

subsection \<open>types.ts\<close>

text \<open>
  \<open>Category\<close> is a string enum: at run time a category is a string, and the upload
  form casts the select element's value to it unchecked.
\<close>

definition BRAND :: string where "BRAND = ''brand''"
definition VIDEO :: string where "VIDEO = ''video''"
definition EXHIBITION :: string where "EXHIBITION = ''exhibition''"

record Blob =
  blob_type :: string
  blob_bytes :: "8 word list"

text \<open>The field \<open>id\<close> is named \<open>id'\<close> here.\<close>

record WorkItem =
  id' :: string
  title :: string
  category :: string
  description :: string
  coverBlob :: Blob
  fileBlob :: Blob
  fileName :: string
  fileType :: string
  createdAt :: number

subsection \<open>Array.prototype.sort\<close>

text \<open>
  The language fixes the result of \<open>sort(compareFn)\<close> when \<open>compareFn\<close> is a
  consistent comparator for the elements of the array: it never returns NaN, and the
  relations "negative", "zero" and "positive" it defines are an equivalence and two
  transitive orders. The result is then the stable sort: \<open>a\<close> stays before \<open>b\<close> unless
  \<open>compareFn(a, b) > 0\<close>. Otherwise the order is implementation-defined: it is the
  order the engine at hand produces, a parameter of the model.
\<close>

definition consistent_comparator :: "('a \<Rightarrow> 'a \<Rightarrow> number) \<Rightarrow> 'a list \<Rightarrow> bool" where
  "consistent_comparator compareFn xs =
     ((\<forall>a\<in>set xs. \<forall>b\<in>set xs. compareFn a b \<noteq> NaN) \<and>
      (\<forall>a\<in>set xs. compareFn a a = Finite 0) \<and>
      (\<forall>a\<in>set xs. \<forall>b\<in>set xs. compareFn a b = Finite 0 \<longrightarrow> compareFn b a = Finite 0) \<and>
      (\<forall>a\<in>set xs. \<forall>b\<in>set xs. \<forall>c\<in>set xs.
         compareFn a b = Finite 0 \<and> compareFn b c = Finite 0 \<longrightarrow> compareFn a c = Finite 0) \<and>
      (\<forall>a\<in>set xs. \<forall>b\<in>set xs. \<forall>c\<in>set xs.
         is_negative (compareFn a b) \<and> is_negative (compareFn b c)
           \<longrightarrow> is_negative (compareFn a c)) \<and>
      (\<forall>a\<in>set xs. \<forall>b\<in>set xs. \<forall>c\<in>set xs.
         is_positive (compareFn a b) \<and> is_positive (compareFn b c)
           \<longrightarrow> is_positive (compareFn a c)))"

fun insert_sorted :: "('a \<Rightarrow> 'a \<Rightarrow> number) \<Rightarrow> 'a \<Rightarrow> 'a list \<Rightarrow> 'a list" where
  "insert_sorted compareFn a [] = [a]"
| "insert_sorted compareFn a (b # bs) =
     (if is_positive (compareFn a b) then b # insert_sorted compareFn a bs else a # b # bs)"

definition stable_sort :: "('a \<Rightarrow> 'a \<Rightarrow> number) \<Rightarrow> 'a list \<Rightarrow> 'a list" where
  "stable_sort compareFn xs = foldr (insert_sorted compareFn) xs []"

type_synonym 'a sort_engine = "('a \<Rightarrow> 'a \<Rightarrow> number) \<Rightarrow> 'a list \<Rightarrow> 'a list"

definition Array_sort :: "'a sort_engine \<Rightarrow> ('a \<Rightarrow> 'a \<Rightarrow> number) \<Rightarrow> 'a list \<Rightarrow> 'a list" where
  "Array_sort engine compareFn xs =
     (if consistent_comparator compareFn xs then stable_sort compareFn xs
      else engine compareFn xs)"


text \<open>
  One engine: V8 on an array of fewer than 64 elements. It reads a NaN from the
  comparator as 0, takes the longest run at the front of the array that is ascending,
  or strictly descending (and then reverses it), and inserts the remaining elements
  one by one at the place a binary search in the sorted part finds.
\<close>

definition Compare :: "('a \<Rightarrow> 'a \<Rightarrow> number) \<Rightarrow> 'a \<Rightarrow> 'a \<Rightarrow> number" where
  "Compare compareFn x y = (let v = compareFn x y in if v = NaN then Finite 0 else v)"

fun run_length :: "bool \<Rightarrow> ('a \<Rightarrow> 'a \<Rightarrow> number) \<Rightarrow> 'a \<Rightarrow> 'a list \<Rightarrow> nat" where
  "run_length isDescending compareFn previousElement [] = 0"
| "run_length isDescending compareFn previousElement (currentElement # rest) =
     (if is_negative (Compare compareFn currentElement previousElement) = isDescending
      then Suc (run_length isDescending compareFn currentElement rest)
      else 0)"

fun CountAndMakeRun :: "('a \<Rightarrow> 'a \<Rightarrow> number) \<Rightarrow> 'a list \<Rightarrow> nat \<times> 'a list" where
  "CountAndMakeRun compareFn (elementHigh # elementLow # rest) =
     (let isDescending = is_negative (Compare compareFn elementLow elementHigh);
          runLength = 2 + run_length isDescending compareFn elementLow rest;
          workArray = elementHigh # elementLow # rest
      in if isDescending
         then (runLength, rev (take runLength workArray) @ drop runLength workArray)
         else (runLength, workArray))"
| "CountAndMakeRun compareFn workArray = (length workArray, workArray)"

function binary_search ::
  "('a \<Rightarrow> 'a \<Rightarrow> number) \<Rightarrow> 'a \<Rightarrow> 'a list \<Rightarrow> nat \<Rightarrow> nat \<Rightarrow> nat" where
  "binary_search compareFn pivot workArray left right =
     (if left < right
      then (let mid = left + (right - left) div 2
            in if is_negative (Compare compareFn pivot (workArray ! mid))
               then binary_search compareFn pivot workArray left mid
               else binary_search compareFn pivot workArray (mid + 1) right)
      else left)"
  by pat_completeness auto
termination
  by (relation "measure (\<lambda>(compareFn, pivot, workArray, left, right). right - left)") auto

declare binary_search.simps [simp del]

fun BinaryInsertionSort :: "('a \<Rightarrow> 'a \<Rightarrow> number) \<Rightarrow> 'a list \<Rightarrow> 'a list \<Rightarrow> 'a list" where
  "BinaryInsertionSort compareFn low [] = low"
| "BinaryInsertionSort compareFn low (pivot # rest) =
     (let left = binary_search compareFn pivot low 0 (length low)
      in BinaryInsertionSort compareFn (take left low @ pivot # drop left low) rest)"

definition v8_sort :: "'a sort_engine" where
  "v8_sort compareFn xs =
     (let (runLength, workArray) = CountAndMakeRun compareFn xs
      in BinaryInsertionSort compareFn (take runLength workArray) (drop runLength workArray))"

subsection \<open>The storage engine\<close>

datatype DOMException =
  AbortError | ConstraintError | DataError | InvalidStateError | NotFoundError
  | QuotaExceededError | ReadOnlyError | SecurityError | UnknownError | VersionError

datatype IDBTransactionMode = readonly | readwrite

text \<open>
  The only object store the repository creates has the in-line key path \<open>id\<close>, so
  an object store is the list of its records, which the engine keeps in ascending
  order of that key.
\<close>

record object_store =
  records :: "WorkItem list"

record database =
  version :: nat
  objectStores :: "string \<rightharpoonup> object_store"

type_synonym world = "string \<rightharpoonup> database"

text \<open>
  The answers of the engine: for each request in turn, the error it fails with or
  \<open>None\<close>. When the list is used up, every further request succeeds.
\<close>

type_synonym answers = "DOMException option list"

definition next_answer :: "answers \<Rightarrow> DOMException option" where
  "next_answer as = (case as of [] \<Rightarrow> None | a # rest \<Rightarrow> a)"

text \<open>The first \<open>n\<close> requests succeed.\<close>

definition quiet :: "nat \<Rightarrow> answers \<Rightarrow> bool" where
  "quiet n as = list_all (\<lambda>a. a = None) (take n as)"

text \<open>Handles: a connection names its database, a transaction its scope and mode.\<close>

record IDBDatabase =
  name :: string

record IDBTransaction =
  tx_db :: string
  tx_scope :: "string list"
  tx_mode :: IDBTransactionMode

record IDBObjectStore =
  os_transaction :: IDBTransaction
  os_name :: string

definition contains :: "database \<Rightarrow> string \<Rightarrow> bool" where
  "contains db nm = (objectStores db nm \<noteq> None)"

definition createObjectStore :: "database \<Rightarrow> string \<Rightarrow> database" where
  "createObjectStore db nm = db\<lparr>objectStores := (objectStores db)(nm \<mapsto> \<lparr>records = []\<rparr>)\<rparr>"

text \<open>
  \<open>indexedDB.open(name, version)\<close> with its \<open>onupgradeneeded\<close> handler. A database
  that does not exist yet is created at version 0 and upgraded; an existing one is
  upgraded when its version is lower, opened as it is when the versions agree, and
  refused with \<open>VersionError\<close> when its version is higher.
\<close>

definition idb_open ::
  "DOMException option \<Rightarrow> string \<Rightarrow> nat \<Rightarrow> (database \<Rightarrow> database) \<Rightarrow> world
    \<Rightarrow> (DOMException + IDBDatabase) \<times> world" where
  "idb_open fault nm ver onupgradeneeded w =
     (case fault of
        Some e \<Rightarrow> (Inl e, w)
      | None \<Rightarrow>
          (let db = (case w nm of
                       None \<Rightarrow> \<lparr>version = 0, objectStores = Map.empty\<rparr>
                     | Some d \<Rightarrow> d)
           in if ver < version db then (Inl VersionError, w)
              else if version db < ver
                then (Inr \<lparr>name = nm\<rparr>, w(nm \<mapsto> onupgradeneeded (db\<lparr>version := ver\<rparr>)))
              else (Inr \<lparr>name = nm\<rparr>, w)))"

text \<open>\<open>db.transaction(names, mode)\<close> throws \<open>NotFoundError\<close> for an unknown store.\<close>

definition transaction ::
  "IDBDatabase \<Rightarrow> string list \<Rightarrow> IDBTransactionMode \<Rightarrow> world
    \<Rightarrow> DOMException + IDBTransaction" where
  "transaction db names mode w =
     (case w (name db) of
        None \<Rightarrow> Inl InvalidStateError
      | Some d \<Rightarrow>
          if list_all (contains d) names
          then Inr \<lparr>tx_db = name db, tx_scope = names, tx_mode = mode\<rparr>
          else Inl NotFoundError)"

definition objectStore :: "IDBTransaction \<Rightarrow> string \<Rightarrow> DOMException + IDBObjectStore" where
  "objectStore tx nm =
     (if nm \<in> set (tx_scope tx) then Inr \<lparr>os_transaction = tx, os_name = nm\<rparr>
      else Inl NotFoundError)"

definition lookup_store :: "IDBObjectStore \<Rightarrow> world \<Rightarrow> object_store option" where
  "lookup_store st w =
     (case w (tx_db (os_transaction st)) of
        None \<Rightarrow> None
      | Some d \<Rightarrow> objectStores d (os_name st))"

definition update_store :: "IDBObjectStore \<Rightarrow> object_store \<Rightarrow> world \<Rightarrow> world" where
  "update_store st os w =
     (case w (tx_db (os_transaction st)) of
        None \<Rightarrow> w
      | Some d \<Rightarrow>
          w(tx_db (os_transaction st) \<mapsto>
              d\<lparr>objectStores := (objectStores d)(os_name st \<mapsto> os)\<rparr>))"

text \<open>
  \<open>store.add(value)\<close>: refused in a read-only transaction; otherwise the request
  fails with the engine's own error, or with \<open>ConstraintError\<close> when a record with
  the value's key is stored already, or it writes the value at its key's place. A
  failed request leaves the store as it was.
\<close>

definition add ::
  "DOMException option \<Rightarrow> IDBObjectStore \<Rightarrow> WorkItem \<Rightarrow> world
    \<Rightarrow> (DOMException + unit) \<times> world" where
  "add fault st v w =
     (if tx_mode (os_transaction st) = readonly then (Inl ReadOnlyError, w)
      else case fault of
        Some e \<Rightarrow> (Inl e, w)
      | None \<Rightarrow>
          (case lookup_store st w of
             None \<Rightarrow> (Inl InvalidStateError, w)
           | Some os \<Rightarrow>
               if id' v \<in> set (map id' (records os)) then (Inl ConstraintError, w)
               else (Inr (), update_store st (os\<lparr>records := insort_key id' v (records os)\<rparr>) w)))"

text \<open>
  The end of a read-write transaction whose requests have succeeded: it commits and
  its writes stay, or the engine aborts it and the state before the transaction is
  back. The abort's error goes to the handlers of the transaction.
\<close>

definition commit :: "DOMException option \<Rightarrow> world \<Rightarrow> world \<Rightarrow> world" where
  "commit fault started written = (case fault of None \<Rightarrow> written | Some e \<Rightarrow> started)"

text \<open>\<open>store.getAll()\<close>: every record, in ascending key order.\<close>

definition getAll ::
  "DOMException option \<Rightarrow> IDBObjectStore \<Rightarrow> world \<Rightarrow> DOMException + WorkItem list" where
  "getAll fault st w =
     (case fault of
        Some e \<Rightarrow> Inl e
      | None \<Rightarrow>
          (case lookup_store st w of
             None \<Rightarrow> Inl InvalidStateError
           | Some os \<Rightarrow> Inr (records os)))"

subsection \<open>Promises\<close>

text \<open>
  What a call of the store gives: the calls of \<open>resolve\<close> and \<open>reject\<close> made on its
  promise, the state it leaves and the answers it has not asked for. The first call
  settles the promise; a promise nobody settles stays pending.
\<close>

datatype 'a settle = resolve 'a | reject DOMException

record 'a outcome =
  calls :: "'a settle list"
  after :: world
  unasked :: answers

definition promise_state :: "'a settle list \<Rightarrow> 'a settle option" where
  "promise_state cs = (case cs of [] \<Rightarrow> None | c # rest \<Rightarrow> Some c)"

subsection \<open>services/db\<close>

definition DB_NAME :: string where "DB_NAME = ''AllInsightDB''"
definition STORE_NAME :: string where "STORE_NAME = ''works''"
definition VERSION :: nat where "VERSION = 1"

text \<open>
  \<open>initDB\<close>: one open request; \<open>onsuccess\<close> resolves with the connection, \<open>onerror\<close>
  rejects with the request's error.
\<close>

definition initDB :: "answers \<Rightarrow> world \<Rightarrow> IDBDatabase outcome" where
  "initDB as w =
     (case idb_open (next_answer as) DB_NAME VERSION
             (\<lambda>db. if \<not> contains db STORE_NAME then createObjectStore db STORE_NAME else db) w of
        (Inr result, w1) \<Rightarrow> \<lparr>calls = [resolve result], after = w1, unasked = tl as\<rparr>
      | (Inl error, w1) \<Rightarrow> \<lparr>calls = [reject error], after = w1, unasked = tl as\<rparr>)"

text \<open>
  The executor of the promise \<open>saveWork\<close> returns, run on the connection \<open>db\<close>. An
  exception thrown in it rejects the promise. \<open>onsuccess\<close> of the add request
  resolves, \<open>onerror\<close> rejects; no handler is set on the transaction, which ends
  after the request has succeeded.
\<close>

definition saveWork_executor :: "IDBDatabase \<Rightarrow> WorkItem \<Rightarrow> answers \<Rightarrow> world \<Rightarrow> unit outcome" where
  "saveWork_executor db work as w =
     (case transaction db [STORE_NAME] readwrite w of
        Inl e \<Rightarrow> \<lparr>calls = [reject e], after = w, unasked = as\<rparr>
      | Inr tx \<Rightarrow>
          (case objectStore tx STORE_NAME of
             Inl e \<Rightarrow> \<lparr>calls = [reject e], after = w, unasked = as\<rparr>
           | Inr store \<Rightarrow>
               (case add (next_answer as) store work w of
                  (Inl error, w1) \<Rightarrow> \<lparr>calls = [reject error], after = w, unasked = tl as\<rparr>
                | (Inr u, w1) \<Rightarrow>
                    \<lparr>calls = [resolve ()], after = commit (next_answer (tl as)) w w1,
                     unasked = tl (tl as)\<rparr>)))"

text \<open>\<open>await initDB()\<close>, then the promise of the executor.\<close>

definition saveWork :: "answers \<Rightarrow> WorkItem \<Rightarrow> world \<Rightarrow> unit outcome" where
  "saveWork as work w =
     (let connecting = initDB as w
      in case promise_state (calls connecting) of
           None \<Rightarrow> \<lparr>calls = [], after = after connecting, unasked = unasked connecting\<rparr>
         | Some (reject e) \<Rightarrow>
             \<lparr>calls = [reject e], after = after connecting, unasked = unasked connecting\<rparr>
         | Some (resolve db) \<Rightarrow>
             saveWork_executor db work (unasked connecting) (after connecting))"

text \<open>
  The executor of \<open>getAllWorks\<close>: \<open>onsuccess\<close> of the request resolves with the
  sorted result, \<open>onerror\<close> rejects. The transaction is read-only: its end changes
  nothing.
\<close>

definition getAllWorks_executor ::
  "WorkItem sort_engine \<Rightarrow> IDBDatabase \<Rightarrow> answers \<Rightarrow> world \<Rightarrow> WorkItem list outcome" where
  "getAllWorks_executor engine db as w =
     (case transaction db [STORE_NAME] readonly w of
        Inl e \<Rightarrow> \<lparr>calls = [reject e], after = w, unasked = as\<rparr>
      | Inr tx \<Rightarrow>
          (case objectStore tx STORE_NAME of
             Inl e \<Rightarrow> \<lparr>calls = [reject e], after = w, unasked = as\<rparr>
           | Inr store \<Rightarrow>
               (case getAll (next_answer as) store w of
                  Inl error \<Rightarrow> \<lparr>calls = [reject error], after = w, unasked = tl as\<rparr>
                | Inr result \<Rightarrow>
                    \<lparr>calls = [resolve (Array_sort engine
                                (\<lambda>a b. number_minus (createdAt b) (createdAt a)) result)],
                     after = w, unasked = tl as\<rparr>)))"

definition getAllWorks ::
  "WorkItem sort_engine \<Rightarrow> answers \<Rightarrow> world \<Rightarrow> WorkItem list outcome" where
  "getAllWorks engine as w =
     (let connecting = initDB as w
      in case promise_state (calls connecting) of
           None \<Rightarrow> \<lparr>calls = [], after = after connecting, unasked = unasked connecting\<rparr>
         | Some (reject e) \<Rightarrow>
             \<lparr>calls = [reject e], after = after connecting, unasked = unasked connecting\<rparr>
         | Some (resolve db) \<Rightarrow>
             getAllWorks_executor engine db (unasked connecting) (after connecting))"

subsection \<open>Callers\<close>

text \<open>
  A caller awaits one call after the other. \<open>step\<close> is one call of the store with
  what the engine answers to it, \<open>run\<close> a sequence of calls, and \<open>saveWorks\<close>
  saves the records of a list in turn on an engine that answers every request and
  commits every transaction, stopping at the first call that does not resolve.
\<close>

datatype operation =
  InitDB answers | SaveWork answers WorkItem | GetAllWorks "WorkItem sort_engine" answers

fun step :: "operation \<Rightarrow> world \<Rightarrow> world" where
  "step (InitDB as) w = after (initDB as w)"
| "step (SaveWork as work) w = after (saveWork as work w)"
| "step (GetAllWorks engine as) w = after (getAllWorks engine as w)"

definition run :: "operation list \<Rightarrow> world \<Rightarrow> world" where
  "run ops w = fold step ops w"

fun saveWorks :: "WorkItem list \<Rightarrow> world \<Rightarrow> unit outcome" where
  "saveWorks [] w = \<lparr>calls = [resolve ()], after = w, unasked = []\<rparr>"
| "saveWorks (work # works) w =
     (let saved = saveWork [] work w
      in if calls saved = [resolve ()] then saveWorks works (after saved) else saved)"

subsection \<open>Observations and the engine's invariant\<close>

text \<open>The records of the collection \<open>works\<close> of the database, none when it is absent.\<close>

definition stored :: "world \<Rightarrow> WorkItem list" where
  "stored w =
     (case w DB_NAME of
        None \<Rightarrow> []
      | Some d \<Rightarrow> (case objectStores d STORE_NAME of None \<Rightarrow> [] | Some os \<Rightarrow> records os))"

text \<open>
  The states the store can be in: no database yet, or the database at the version of
  the code with its collection, the records in strictly ascending key order.
\<close>

definition wf_world :: "world \<Rightarrow> bool" where
  "wf_world w =
     (case w DB_NAME of
        None \<Rightarrow> True
      | Some d \<Rightarrow>
          version d = VERSION \<and>
          (case objectStores d STORE_NAME of
             None \<Rightarrow> False
           | Some os \<Rightarrow> sorted_wrt (<) (map id' (records os))))"

text \<open>The state an open request leaves: the database and its collection exist.\<close>

definition opened :: "world \<Rightarrow> world" where
  "opened w =
     (case w DB_NAME of
        None \<Rightarrow> w(DB_NAME \<mapsto> \<lparr>version = VERSION, objectStores = [STORE_NAME \<mapsto> \<lparr>records = []\<rparr>]\<rparr>)
      | Some d \<Rightarrow> w)"

text \<open>The state with \<open>r\<close> written into the collection.\<close>

definition written :: "WorkItem \<Rightarrow> world \<Rightarrow> world" where
  "written r w =
     (case w DB_NAME of
        None \<Rightarrow> w
      | Some d \<Rightarrow>
          (case objectStores d STORE_NAME of
             None \<Rightarrow> w
           | Some os \<Rightarrow>
               w(DB_NAME \<mapsto> d\<lparr>objectStores :=
                   (objectStores d)(STORE_NAME \<mapsto> os\<lparr>records := insort_key id' r (records os)\<rparr>)\<rparr>)))"

text \<open>Every record has a finite \<open>createdAt\<close>, as \<open>Date.now()\<close> gives.\<close>

definition finite_dates :: "WorkItem list \<Rightarrow> bool" where
  "finite_dates xs = list_all (\<lambda>x. is_finite (createdAt x)) xs"

subsection \<open>Example records\<close>

definition png :: Blob where
  "png = \<lparr>blob_type = ''image/png'', blob_bytes = [0x89, 0x50, 0x4E, 0x47]\<rparr>"

definition pdf :: Blob where
  "pdf = \<lparr>blob_type = ''application/pdf'', blob_bytes = [0x25, 0x50, 0x44, 0x46]\<rparr>"

definition alpha :: WorkItem where
  "alpha = \<lparr>id' = ''1'', title = ''Alpha'', category = BRAND, description = ''first'',
     coverBlob = png, fileBlob = pdf, fileName = ''alpha.pdf'', fileType = ''application/pdf'',
     createdAt = Finite 100\<rparr>"

definition beta :: WorkItem where
  "beta = \<lparr>id' = ''2'', title = ''Beta'', category = VIDEO, description = [],
     coverBlob = png, fileBlob = pdf, fileName = ''beta.pdf'', fileType = ''application/pdf'',
     createdAt = Finite 200\<rparr>"

definition gamma :: WorkItem where
  "gamma = \<lparr>id' = ''10'', title = [], category = ''poster'', description = [],
     coverBlob = png, fileBlob = png, fileName = ''gamma.png'', fileType = ''image/png'',
     createdAt = Finite 200\<rparr>"

definition alpha2 :: WorkItem where
  "alpha2 = \<lparr>id' = ''1'', title = ''Other'', category = EXHIBITION, description = ''second'',
     coverBlob = pdf, fileBlob = png, fileName = ''other.png'', fileType = ''image/png'',
     createdAt = Finite 300\<rparr>"

text \<open>A record with the id \<open>k\<close> and the \<open>createdAt\<close> \<open>t\<close>.\<close>

definition work :: "string \<Rightarrow> number \<Rightarrow> WorkItem" where
  "work k t = \<lparr>id' = k, title = ''Work'', category = BRAND, description = [],
     coverBlob = png, fileBlob = pdf, fileName = ''work.pdf'', fileType = ''application/pdf'',
     createdAt = t\<rparr>"

text \<open>Records in key order, some with the \<open>createdAt\<close> NaN.\<close>

definition three :: "WorkItem list" where
  "three = [work ''1'' (Finite 1), work ''2'' NaN, work ''3'' (Finite 3)]"

definition seven :: "WorkItem list" where
  "seven = [work ''1'' NaN, work ''2'' NaN, work ''3'' (Finite 1), work ''4'' NaN,
            work ''5'' (Finite 2), work ''6'' (Finite 3), work ''7'' (Finite 2)]"

text \<open>Example states and engine answers.\<close>

definition newer :: world where
  "newer = [DB_NAME \<mapsto> \<lparr>version = 2, objectStores = Map.empty\<rparr>]"


definition denied :: answers where
  "denied = [Some SecurityError]"

definition full :: answers where
  "full = [None, Some QuotaExceededError]"

definition commit_aborts :: answers where
  "commit_aborts = [None, None, Some QuotaExceededError]"

section \<open>Properties\<close>

subsection \<open>The sort\<close>




lemma Array_sort_Nil: "Array_sort engine compareFn [] = []"
  by (simp add: Array_sort_def consistent_comparator_def stable_sort_def)

lemma is_finite_conv: "is_finite n \<longleftrightarrow> n = Finite (finite_value n)"
  by (cases n) auto

lemma finite_dates_minus:
  assumes "finite_dates xs" "a \<in> set xs" "b \<in> set xs"
  shows "number_minus (createdAt b) (createdAt a)
      = Finite (finite_value (createdAt b) - finite_value (createdAt a))"
proof -
  have "is_finite (createdAt a)" "is_finite (createdAt b)"
    using assms by (simp_all add: finite_dates_def list_all_iff)
  then obtain p q where "createdAt a = Finite p" "createdAt b = Finite q"
    using is_finite_conv by blast
  then show ?thesis by simp
qed

lemma finite_dates_consistent:
  assumes "finite_dates xs"
  shows "consistent_comparator (\<lambda>a b. number_minus (createdAt b) (createdAt a)) xs"
  unfolding consistent_comparator_def
  by (intro conjI ballI impI) (simp_all add: finite_dates_minus[OF assms])

lemma insert_sorted_insort_key:
  assumes "is_finite (createdAt a)" "finite_dates bs"
  shows "insert_sorted (\<lambda>a b. number_minus (createdAt b) (createdAt a)) a bs
     = insort_key (\<lambda>x. - finite_value (createdAt x)) a bs"
  using assms
proof (induction bs)
  case Nil
  then show ?case by simp
next
  case (Cons b bs)
  obtain p where p: "createdAt a = Finite p" using Cons.prems(1) by (cases "createdAt a") auto
  obtain q where q: "createdAt b = Finite q" using Cons.prems(2)
    by (cases "createdAt b") (auto simp: finite_dates_def)
  have "finite_dates bs" using Cons.prems(2) by (simp add: finite_dates_def)
  then show ?case using Cons.IH Cons.prems(1) by (auto simp: p q)
qed

lemma stable_sort_sort_key:
  "finite_dates xs \<Longrightarrow>
     stable_sort (\<lambda>a b. number_minus (createdAt b) (createdAt a)) xs
       = sort_key (\<lambda>x. - finite_value (createdAt x)) xs"
proof (induction xs)
  case Nil
  then show ?case by (simp add: stable_sort_def)
next
  case (Cons x xs)
  have fx: "is_finite (createdAt x)" and fxs: "finite_dates xs"
    using Cons.prems by (simp_all add: finite_dates_def)
  have fs: "finite_dates (sort_key (\<lambda>x. - finite_value (createdAt x)) xs)"
    using fxs by (simp add: finite_dates_def list_all_iff)
  have "stable_sort (\<lambda>a b. number_minus (createdAt b) (createdAt a)) (x # xs)
      = insert_sorted (\<lambda>a b. number_minus (createdAt b) (createdAt a)) x
          (stable_sort (\<lambda>a b. number_minus (createdAt b) (createdAt a)) xs)"
    by (simp add: stable_sort_def)
  also have "\<dots> = insert_sorted (\<lambda>a b. number_minus (createdAt b) (createdAt a)) x
          (sort_key (\<lambda>x. - finite_value (createdAt x)) xs)"
    by (simp add: Cons.IH[OF fxs])
  also have "\<dots> = insort_key (\<lambda>x. - finite_value (createdAt x)) x
          (sort_key (\<lambda>x. - finite_value (createdAt x)) xs)"
    by (rule insert_sorted_insort_key[OF fx fs])
  finally show ?case by simp
qed

lemma Array_sort_finite:
  "finite_dates xs \<Longrightarrow>
     Array_sort engine (\<lambda>a b. number_minus (createdAt b) (createdAt a)) xs
       = sort_key (\<lambda>x. - finite_value (createdAt x)) xs"
  by (simp add: Array_sort_def finite_dates_consistent stable_sort_sort_key)

lemma number_ge_finite:
  "is_finite a \<Longrightarrow> is_finite b \<Longrightarrow> number_ge a b \<longleftrightarrow> finite_value b \<le> finite_value a"
  by (cases a; cases b) auto

lemma sorted_Array_sort:
  assumes "finite_dates xs"
  shows "sorted_wrt (\<lambda>a b. number_ge (createdAt a) (createdAt b))
     (Array_sort engine (\<lambda>a b. number_minus (createdAt b) (createdAt a)) xs)"
proof -
  let ?k = "\<lambda>x. - finite_value (createdAt x)"
  have s: "sorted_wrt (\<lambda>a b. ?k a \<le> ?k b) (sort_key ?k xs)"
    using sorted_sort_key[of ?k xs] by (simp add: sorted_wrt_map)
  have "sorted_wrt (\<lambda>a b. number_ge (createdAt a) (createdAt b)) (sort_key ?k xs)"
  proof (rule sorted_wrt_mono_rel[OF _ s])
    fix a b assume "a \<in> set (sort_key ?k xs)" "b \<in> set (sort_key ?k xs)" "?k a \<le> ?k b"
    then show "number_ge (createdAt a) (createdAt b)"
      using assms by (simp add: number_ge_finite finite_dates_def list_all_iff)
  qed
  then show ?thesis by (simp add: Array_sort_finite[OF assms])
qed

lemma tie_insort_key:
  fixes f :: "'a \<Rightarrow> 'b::linorder" and g :: "'a \<Rightarrow> 'c::order"
  shows "sorted_wrt (\<lambda>a b. f a = f b \<longrightarrow> g a < g b) ys \<Longrightarrow> \<forall>y\<in>set ys. g x < g y \<Longrightarrow>
     sorted_wrt (\<lambda>a b. f a = f b \<longrightarrow> g a < g b) (insort_key f x ys)"
  by (induction ys) (auto simp: set_insort_key)

lemma tie_sort_key:
  fixes f :: "'a \<Rightarrow> 'b::linorder" and g :: "'a \<Rightarrow> 'c::order"
  shows "sorted_wrt (\<lambda>a b. g a < g b) xs \<Longrightarrow>
     sorted_wrt (\<lambda>a b. f a = f b \<longrightarrow> g a < g b) (sort_key f xs)"
  by (induction xs) (auto intro: tie_insort_key)

lemma tie_Array_sort:
  assumes "finite_dates xs" "sorted_wrt (<) (map id' xs)"
  shows "sorted_wrt (\<lambda>a b. createdAt a = createdAt b \<longrightarrow> id' a < id' b)
       (Array_sort engine (\<lambda>a b. number_minus (createdAt b) (createdAt a)) xs)"
proof -
  let ?k = "\<lambda>x. - finite_value (createdAt x)"
  have s: "sorted_wrt (\<lambda>a b. ?k a = ?k b \<longrightarrow> id' a < id' b) (sort_key ?k xs)"
    using tie_sort_key[of id' xs ?k] assms(2) by (simp add: sorted_wrt_map)
  have "sorted_wrt (\<lambda>a b. createdAt a = createdAt b \<longrightarrow> id' a < id' b) (sort_key ?k xs)"
    by (rule sorted_wrt_mono_rel[OF _ s]) simp
  then show ?thesis by (simp add: Array_sort_finite[OF assms(1)])
qed

subsection \<open>The example engine\<close>







subsection \<open>The engine's answers\<close>

lemma next_answer_simps:
  "next_answer [] = None" "next_answer (a # as) = a"
  by (simp_all add: next_answer_def)

lemma quiet_0: "quiet 0 as"
  by (simp add: quiet_def)

lemma quiet_Suc: "quiet (Suc n) as \<longleftrightarrow> next_answer as = None \<and> quiet n (tl as)"
  by (cases as) (simp_all add: quiet_def next_answer_def)

lemma quiet_2: "quiet 2 as \<longleftrightarrow> next_answer as = None \<and> next_answer (tl as) = None"
  by (simp add: numeral_2_eq_2 quiet_Suc quiet_0)

lemma quiet_3:
  "quiet 3 as \<longleftrightarrow>
     next_answer as = None \<and> next_answer (tl as) = None \<and> next_answer (tl (tl as)) = None"
  by (simp add: numeral_3_eq_3 quiet_Suc quiet_0)

lemma quiet_Nil: "quiet n []"
  by (simp add: quiet_def)

subsection \<open>Opening the database\<close>

lemma initDB_fault:
  "next_answer as = Some e \<Longrightarrow> initDB as w = \<lparr>calls = [reject e], after = w, unasked = tl as\<rparr>"
  by (simp add: initDB_def idb_open_def)

lemma initDB_wf:
  "wf_world w \<Longrightarrow> next_answer as = None \<Longrightarrow>
     initDB as w = \<lparr>calls = [resolve \<lparr>name = DB_NAME\<rparr>], after = opened w, unasked = tl as\<rparr>"
  by (auto simp: initDB_def idb_open_def wf_world_def opened_def VERSION_def contains_def
      createObjectStore_def split: option.splits)

lemma unasked_initDB: "unasked (initDB as w) = tl as"
  by (auto simp: initDB_def split: prod.splits sum.splits)

lemma initDB_cases:
  "(\<exists>e. initDB as w = \<lparr>calls = [reject e], after = w, unasked = tl as\<rparr>) \<or>
   (\<exists>w1. initDB as w = \<lparr>calls = [resolve \<lparr>name = DB_NAME\<rparr>], after = w1, unasked = tl as\<rparr> \<and>
         stored w1 = stored w \<and> next_answer as = None)"
proof (cases "next_answer as")
  case (Some e)
  then show ?thesis by (simp add: initDB_fault)
next
  case None
  show ?thesis
  proof (cases "w DB_NAME")
    case None
    then show ?thesis using \<open>next_answer as = None\<close>
      by (simp add: initDB_def idb_open_def VERSION_def stored_def contains_def createObjectStore_def)
  next
    case (Some d)
    then show ?thesis using \<open>next_answer as = None\<close>
      by (auto simp: initDB_def idb_open_def stored_def contains_def createObjectStore_def
          split: option.splits)
  qed
qed

lemma stored_initDB: "stored (after (initDB as w)) = stored w"
  using initDB_cases[of as w] by auto

lemma initDB_reject: "calls (initDB as w) = [reject e] \<Longrightarrow>
    initDB as w = \<lparr>calls = [reject e], after = w, unasked = tl as\<rparr>"
  using initDB_cases[of as w] by auto




lemma wf_empty: "wf_world Map.empty"
  by (simp add: wf_world_def)

lemma wf_opened: "wf_world w \<Longrightarrow> wf_world (opened w)"
  by (auto simp: wf_world_def opened_def split: option.splits)

lemma stored_opened: "stored (opened w) = stored w"
  by (auto simp: stored_def opened_def split: option.splits)

lemma opened_opened: "opened (opened w) = opened w"
  by (auto simp: opened_def split: option.splits)

lemma opened_Some: "\<exists>d. opened w DB_NAME = Some d"
  by (auto simp: opened_def split: option.splits)

lemma stored_nonempty_db: "r \<in> set (stored w) \<Longrightarrow> \<exists>d. w DB_NAME = Some d"
  by (cases "w DB_NAME") (auto simp: stored_def)

lemma wf_initDB: "wf_world w \<Longrightarrow> wf_world (after (initDB as w))"
  by (cases "next_answer as") (simp_all add: initDB_fault initDB_wf wf_opened)

lemma wf_distinct: "wf_world w \<Longrightarrow> distinct (map id' (stored w))"
  by (auto simp: wf_world_def stored_def strict_sorted_iff split: option.splits)

lemma wf_sorted: "wf_world w \<Longrightarrow> sorted_wrt (<) (map id' (stored w))"
  by (auto simp: wf_world_def stored_def split: option.splits)

subsection \<open>Writing a record\<close>

lemma strict_insort_key:
  "sorted_wrt (<) (map f xs) \<Longrightarrow> f x \<notin> f ` set xs \<Longrightarrow> sorted_wrt (<) (map f (insort_key f x xs))"
  by (simp add: strict_sorted_iff sorted_insort_key distinct_insort_key)

lemma stored_written:
  "wf_world w \<Longrightarrow> w DB_NAME = Some d \<Longrightarrow> stored (written r w) = insort_key id' r (stored w)"
  by (auto simp: wf_world_def written_def stored_def split: option.splits)

lemma wf_written:
  "wf_world w \<Longrightarrow> id' r \<notin> set (map id' (stored w)) \<Longrightarrow> wf_world (written r w)"
  using strict_insort_key[of id' "stored w" r]
  by (auto simp: wf_world_def written_def stored_def split: option.splits)

lemma wf_commit: "wf_world w0 \<Longrightarrow> wf_world w1 \<Longrightarrow> wf_world (commit c w0 w1)"
  by (cases c) (simp_all add: commit_def)

subsection \<open>The calls of the store\<close>

lemma saveWork_executor_cases:
  "(\<exists>e. calls (saveWork_executor \<lparr>name = DB_NAME\<rparr> r as w) = [reject e] \<and>
        after (saveWork_executor \<lparr>name = DB_NAME\<rparr> r as w) = w) \<or>
   (calls (saveWork_executor \<lparr>name = DB_NAME\<rparr> r as w) = [resolve ()] \<and>
      next_answer as = None \<and> id' r \<notin> set (map id' (stored w)) \<and>
      stored (after (saveWork_executor \<lparr>name = DB_NAME\<rparr> r as w))
        = (if next_answer (tl as) = None then insort_key id' r (stored w) else stored w))"
proof (cases "w DB_NAME")
  case None
  then show ?thesis by (simp add: saveWork_executor_def transaction_def)
next
  case (Some d)
  show ?thesis
  proof (cases "objectStores d STORE_NAME")
    case None
    then show ?thesis using Some by (simp add: saveWork_executor_def transaction_def contains_def)
  next
    case (Some os)
    then show ?thesis using \<open>w DB_NAME = Some d\<close>
      by (cases "next_answer as"; cases "next_answer (tl as)")
        (simp_all add: saveWork_executor_def transaction_def contains_def commit_def
          objectStore_def add_def lookup_store_def update_store_def stored_def)
  qed
qed

lemma saveWork_executor_wf:
  assumes "wf_world w" "w DB_NAME = Some d"
  shows "saveWork_executor \<lparr>name = DB_NAME\<rparr> r as w =
     (case next_answer as of
        Some e \<Rightarrow> \<lparr>calls = [reject e], after = w, unasked = tl as\<rparr>
      | None \<Rightarrow>
          if id' r \<in> set (map id' (stored w))
          then \<lparr>calls = [reject ConstraintError], after = w, unasked = tl as\<rparr>
          else \<lparr>calls = [resolve ()], after = commit (next_answer (tl as)) w (written r w),
                unasked = tl (tl as)\<rparr>)"
  using assms
  by (cases "next_answer as")
    (auto simp: saveWork_executor_def transaction_def contains_def wf_world_def written_def
        objectStore_def add_def lookup_store_def update_store_def stored_def split: option.splits)

lemma getAllWorks_executor_cases:
  "after (getAllWorks_executor engine \<lparr>name = DB_NAME\<rparr> as w) = w \<and>
   ((\<exists>e. calls (getAllWorks_executor engine \<lparr>name = DB_NAME\<rparr> as w) = [reject e]) \<or>
    (next_answer as = None \<and>
     calls (getAllWorks_executor engine \<lparr>name = DB_NAME\<rparr> as w) =
       [resolve (Array_sort engine (\<lambda>a b. number_minus (createdAt b) (createdAt a)) (stored w))]))"
proof (cases "w DB_NAME")
  case None
  then show ?thesis by (simp add: getAllWorks_executor_def transaction_def)
next
  case (Some d)
  show ?thesis
  proof (cases "objectStores d STORE_NAME")
    case None
    then show ?thesis using Some by (simp add: getAllWorks_executor_def transaction_def contains_def)
  next
    case (Some os)
    then show ?thesis using \<open>w DB_NAME = Some d\<close>
      by (cases "next_answer as") (simp_all add: getAllWorks_executor_def transaction_def contains_def
        objectStore_def getAll_def lookup_store_def stored_def)
  qed
qed

lemma getAllWorks_executor_wf:
  assumes "wf_world w" "w DB_NAME = Some d"
  shows "getAllWorks_executor engine \<lparr>name = DB_NAME\<rparr> as w =
     (case next_answer as of
        Some e \<Rightarrow> \<lparr>calls = [reject e], after = w, unasked = tl as\<rparr>
      | None \<Rightarrow>
          \<lparr>calls = [resolve (Array_sort engine
              (\<lambda>a b. number_minus (createdAt b) (createdAt a)) (stored w))],
           after = w, unasked = tl as\<rparr>)"
  using assms
  by (cases "next_answer as")
    (auto simp: getAllWorks_executor_def transaction_def contains_def wf_world_def
        objectStore_def getAll_def lookup_store_def stored_def split: option.splits)

lemma saveWork_reject_open:
  "calls (initDB as w) = [reject e] \<Longrightarrow>
     saveWork as r w = \<lparr>calls = [reject e], after = w, unasked = tl as\<rparr>"
  by (simp add: saveWork_def Let_def promise_state_def initDB_reject)

lemma getAllWorks_reject_open:
  "calls (initDB as w) = [reject e] \<Longrightarrow>
     getAllWorks engine as w = \<lparr>calls = [reject e], after = w, unasked = tl as\<rparr>"
  by (simp add: getAllWorks_def Let_def promise_state_def initDB_reject)

lemma saveWork_cases:
  "(\<exists>e. calls (saveWork as r w) = [reject e] \<and> stored (after (saveWork as r w)) = stored w) \<or>
   (calls (saveWork as r w) = [resolve ()] \<and> quiet 2 as \<and>
      id' r \<notin> set (map id' (stored w)) \<and>
      stored (after (saveWork as r w))
        = (if next_answer (tl (tl as)) = None then insort_key id' r (stored w) else stored w))"
proof -
  consider e where "initDB as w = \<lparr>calls = [reject e], after = w, unasked = tl as\<rparr>"
    | w1 where "initDB as w = \<lparr>calls = [resolve \<lparr>name = DB_NAME\<rparr>], after = w1, unasked = tl as\<rparr>"
        "stored w1 = stored w" "next_answer as = None"
    using initDB_cases[of as w] by blast
  then show ?thesis
  proof cases
    case 1
    then show ?thesis by (simp add: saveWork_def promise_state_def)
  next
    case 2
    then show ?thesis
      using saveWork_executor_cases[of r "tl as" w1]
      by (auto simp: saveWork_def promise_state_def quiet_2)
  qed
qed

lemma getAllWorks_cases:
  "stored (after (getAllWorks engine as w)) = stored w \<and>
   ((\<exists>e. calls (getAllWorks engine as w) = [reject e]) \<or>
    (quiet 2 as \<and>
     calls (getAllWorks engine as w) =
       [resolve (Array_sort engine (\<lambda>a b. number_minus (createdAt b) (createdAt a)) (stored w))]))"
proof -
  consider e where "initDB as w = \<lparr>calls = [reject e], after = w, unasked = tl as\<rparr>"
    | w1 where "initDB as w = \<lparr>calls = [resolve \<lparr>name = DB_NAME\<rparr>], after = w1, unasked = tl as\<rparr>"
        "stored w1 = stored w" "next_answer as = None"
    using initDB_cases[of as w] by blast
  then show ?thesis
  proof cases
    case 1
    then show ?thesis by (simp add: getAllWorks_def promise_state_def)
  next
    case 2
    then show ?thesis
      using getAllWorks_executor_cases[of engine "tl as" w1]
      by (auto simp: getAllWorks_def promise_state_def quiet_2)
  qed
qed

lemma saveWork_wf:
  assumes "wf_world w"
  shows "saveWork as r w =
     (case next_answer as of
        Some e \<Rightarrow> \<lparr>calls = [reject e], after = w, unasked = tl as\<rparr>
      | None \<Rightarrow>
         (case next_answer (tl as) of
            Some e \<Rightarrow> \<lparr>calls = [reject e], after = opened w, unasked = tl (tl as)\<rparr>
          | None \<Rightarrow>
              if id' r \<in> set (map id' (stored w))
              then \<lparr>calls = [reject ConstraintError], after = opened w, unasked = tl (tl as)\<rparr>
              else \<lparr>calls = [resolve ()],
                    after = commit (next_answer (tl (tl as))) (opened w) (written r (opened w)),
                    unasked = tl (tl (tl as))\<rparr>))"
proof -
  obtain d where d: "opened w DB_NAME = Some d" using opened_Some by blast
  note ex = saveWork_executor_wf[OF wf_opened[OF assms] d, of r "tl as"]
  show ?thesis
  proof (cases "next_answer as")
    case (Some e)
    then show ?thesis by (simp add: saveWork_def initDB_fault promise_state_def)
  next
    case None
    then show ?thesis
      using ex assms
      by (simp add: saveWork_def initDB_wf promise_state_def stored_opened split: option.splits)
  qed
qed

lemma wf_saveWork: "wf_world w \<Longrightarrow> wf_world (after (saveWork as r w))"
  by (auto simp: saveWork_wf wf_opened wf_commit wf_written stored_opened split: option.splits)

lemma getAllWorks_wf:
  assumes "wf_world w"
  shows "getAllWorks engine as w =
     (case next_answer as of
        Some e \<Rightarrow> \<lparr>calls = [reject e], after = w, unasked = tl as\<rparr>
      | None \<Rightarrow>
         (case next_answer (tl as) of
            Some e \<Rightarrow> \<lparr>calls = [reject e], after = opened w, unasked = tl (tl as)\<rparr>
          | None \<Rightarrow>
              \<lparr>calls = [resolve (Array_sort engine
                  (\<lambda>a b. number_minus (createdAt b) (createdAt a)) (stored w))],
               after = opened w, unasked = tl (tl as)\<rparr>))"
proof -
  obtain d where d: "opened w DB_NAME = Some d" using opened_Some by blast
  note ex = getAllWorks_executor_wf[OF wf_opened[OF assms] d, of engine "tl as"]
  show ?thesis
  proof (cases "next_answer as")
    case (Some e)
    then show ?thesis by (simp add: getAllWorks_def initDB_fault promise_state_def)
  next
    case None
    then show ?thesis
      using ex assms
      by (simp add: getAllWorks_def initDB_wf promise_state_def stored_opened split: option.splits)
  qed
qed

lemma wf_getAllWorks: "wf_world w \<Longrightarrow> wf_world (after (getAllWorks engine as w))"
  by (auto simp: getAllWorks_wf wf_opened split: option.splits)

lemma getAllWorks_quiet:
  "wf_world w \<Longrightarrow> quiet 2 as \<Longrightarrow>
     getAllWorks engine as w =
       \<lparr>calls = [resolve (Array_sort engine
              (\<lambda>a b. number_minus (createdAt b) (createdAt a)) (stored w))],
        after = opened w, unasked = tl (tl as)\<rparr>"
  by (simp add: getAllWorks_wf quiet_2)

lemma saveWork_fresh:
  assumes "wf_world w" "id' r \<notin> set (map id' (stored w))" "quiet 3 as"
  shows "calls (saveWork as r w) = [resolve ()]"
    and "stored (after (saveWork as r w)) = insort_key id' r (stored w)"
    and "after (saveWork as r w) = written r (opened w)"
proof -
  obtain d where d: "opened w DB_NAME = Some d" using opened_Some by blast
  have sv: "saveWork as r w = \<lparr>calls = [resolve ()], after = written r (opened w),
      unasked = tl (tl (tl as))\<rparr>"
    using assms by (simp add: saveWork_wf quiet_3 commit_def)
  show "calls (saveWork as r w) = [resolve ()]" by (simp add: sv)
  show "after (saveWork as r w) = written r (opened w)" by (simp add: sv)
  show "stored (after (saveWork as r w)) = insort_key id' r (stored w)"
    using stored_written[OF wf_opened[OF assms(1)] d, of r] by (simp add: sv stored_opened)
qed

subsection \<open>Sequences of calls\<close>

lemma stored_step_cases:
  "stored (step op w) = stored w \<or>
   (\<exists>r. id' r \<notin> set (map id' (stored w)) \<and> stored (step op w) = insort_key id' r (stored w))"
proof (cases op)
  case (InitDB as)
  then show ?thesis by (simp add: stored_initDB)
next
  case (SaveWork as r)
  then show ?thesis using saveWork_cases[of as r w] by (auto split: if_splits)
next
  case (GetAllWorks engine as)
  then show ?thesis using getAllWorks_cases[of engine as w] by simp
qed

lemma step_keeps: "set (stored w) \<subseteq> set (stored (step op w))"
  using stored_step_cases[of op w] by (auto simp: set_insort_key)

lemma step_distinct:
  "distinct (map id' (stored w)) \<Longrightarrow> distinct (map id' (stored (step op w)))"
  using stored_step_cases[of op w] by (auto simp: distinct_insort_key)

lemma wf_step: "wf_world w \<Longrightarrow> wf_world (step op w)"
  by (cases op) (simp_all add: wf_initDB wf_saveWork wf_getAllWorks)

lemma run_keeps: "set (stored w) \<subseteq> set (stored (run ops w))"
  unfolding run_def
proof (induction ops arbitrary: w)
  case Nil
  show ?case by simp
next
  case (Cons op ops)
  show ?case using step_keeps[of w op] Cons[of "step op w"] by auto
qed

lemma run_distinct:
  "distinct (map id' (stored w)) \<Longrightarrow> distinct (map id' (stored (run ops w)))"
  unfolding run_def
  by (induction ops arbitrary: w) (simp_all add: step_distinct)

lemma wf_run: "wf_world w \<Longrightarrow> wf_world (run ops w)"
  unfolding run_def
  by (induction ops arbitrary: w) (simp_all add: wf_step)

text \<open>
  Every state the three calls can reach from a profile without the database, whatever
  the engine answers, satisfies \<open>wf_world\<close>.
\<close>

lemma reachable_wf: "wf_world (run ops Map.empty)"
  by (rule wf_run[OF wf_empty])

lemma saveWorks_wf:
  "wf_world w \<Longrightarrow> distinct (map id' ws) \<Longrightarrow> set (map id' ws) \<inter> set (map id' (stored w)) = {} \<Longrightarrow>
     calls (saveWorks ws w) = [resolve ()] \<and> wf_world (after (saveWorks ws w)) \<and>
     mset (stored (after (saveWorks ws w))) = mset ws + mset (stored w)"
proof (induction ws arbitrary: w)
  case Nil
  then show ?case by simp
next
  case (Cons r ws)
  let ?w1 = "after (saveWork [] r w)"
  have fresh: "id' r \<notin> set (map id' (stored w))" using Cons.prems(3) by auto
  note sv = saveWork_fresh[OF Cons.prems(1) fresh quiet_Nil[of 3]]
  have wf1: "wf_world ?w1" by (rule wf_saveWork[OF Cons.prems(1)])
  have disj: "set (map id' ws) \<inter> set (map id' (stored ?w1)) = {}"
    using Cons.prems(2,3) by (auto simp: sv(2) set_insort_key)
  have dist: "distinct (map id' ws)" using Cons.prems(2) by simp
  note IH = Cons.IH[OF wf1 dist disj]
  have unf: "saveWorks (r # ws) w = saveWorks ws ?w1"
    using sv(1) by (simp add: Let_def)
  show ?case unfolding unf using IH by (simp add: sv(2))
qed

subsection \<open>Repeated opening, equal contents, settled once\<close>

lemma run_InitDB_wf:
  "wf_world w \<Longrightarrow> run (replicate (Suc n) (InitDB [])) w = opened w"
proof (induction n arbitrary: w)
  case 0
  then show ?case by (simp add: run_def initDB_wf next_answer_simps)
next
  case (Suc n)
  have "run (replicate (Suc (Suc n)) (InitDB [])) w
      = run (replicate (Suc n) (InitDB [])) (opened w)"
    using Suc.prems by (simp add: run_def initDB_wf next_answer_simps)
  also have "\<dots> = opened (opened w)"
    by (rule Suc.IH[OF wf_opened[OF Suc.prems]])
  finally show ?case by (simp add: opened_opened)
qed

lemma transaction_opened:
  "wf_world w \<Longrightarrow> transaction \<lparr>name = DB_NAME\<rparr> [STORE_NAME] mode (opened w)
     = Inr \<lparr>tx_db = DB_NAME, tx_scope = [STORE_NAME], tx_mode = mode\<rparr>"
  by (auto simp: transaction_def opened_def wf_world_def contains_def split: option.splits)

lemma wf_stored_unique:
  assumes "wf_world w" "wf_world v" "set (stored w) = set (stored v)"
  shows "stored w = stored v"
proof -
  have dw: "distinct (map id' (stored w))" and dv: "distinct (map id' (stored v))"
    using assms(1,2) by (simp_all add: wf_distinct)
  have "inj_on id' (set (stored w))"
    using dw by (simp add: distinct_map)
  then have inj: "inj_on id' (set (stored w) \<union> set (stored v))"
    using assms(3) by simp
  have sw: "sorted (map id' (stored w))" and sv: "sorted (map id' (stored v))"
    using assms(1,2) by (simp_all add: wf_sorted strict_sorted_imp_sorted)
  show ?thesis
    by (rule map_sorted_distinct_set_unique[OF inj sw dw sv dv assms(3)])
qed




section \<open>The claims\<close>




text \<open>
  C2. In a state whose records all have a finite \<open>createdAt\<close>, a list
  \<open>getAllWorks\<close> resolves with is in descending order of \<open>createdAt\<close>, whatever the
  engine: every element is \<open>>=\<close> every later one, and in particular each element is
  \<open>>=\<close> its successor. Saving a record with id 1 and \<open>createdAt\<close> 100 and then one
  with id 2 and \<open>createdAt\<close> 200 into an empty store, \<open>getAllWorks\<close> resolves with the
  second record followed by the first.
\<close>

theorem getAllWorks_sorted_descending:
  "(finite_dates (stored w) \<and> calls (getAllWorks engine as w) = [resolve xs] \<longrightarrow>
      sorted_wrt (\<lambda>a b. number_ge (createdAt a) (createdAt b)) xs \<and>
      (\<forall>i. Suc i < length xs \<longrightarrow> number_ge (createdAt (xs ! i)) (createdAt (xs ! Suc i)))) \<and>
   (wf_world v \<and> stored v = [] \<and> id' a = ''1'' \<and> createdAt a = Finite 100 \<and>
    id' b = ''2'' \<and> createdAt b = Finite 200 \<longrightarrow>
      calls (saveWorks [a, b] v) = [resolve ()] \<and>
      calls (getAllWorks engine' [] (after (saveWorks [a, b] v))) = [resolve [b, a]])"
proof (intro conjI impI)
  assume ls: "finite_dates (stored w) \<and> calls (getAllWorks engine as w) = [resolve xs]"
  then have xs: "xs = Array_sort engine (\<lambda>a b. number_minus (createdAt b) (createdAt a)) (stored w)"
    using getAllWorks_cases[of engine as w] by auto
  show srt: "sorted_wrt (\<lambda>a b. number_ge (createdAt a) (createdAt b)) xs"
    unfolding xs using ls by (intro sorted_Array_sort) simp
  show "\<forall>i. Suc i < length xs \<longrightarrow> number_ge (createdAt (xs ! i)) (createdAt (xs ! Suc i))"
    using sorted_wrt_nth_less[OF srt] by simp
next
  assume a: "wf_world v \<and> stored v = [] \<and> id' a = ''1'' \<and> createdAt a = Finite 100 \<and>
    id' b = ''2'' \<and> createdAt b = Finite 200"
  then have sw: "calls (saveWorks [a, b] v) = [resolve ()]" "wf_world (after (saveWorks [a, b] v))"
    using saveWorks_wf[of v "[a, b]"] by simp_all
  show "calls (saveWorks [a, b] v) = [resolve ()]" by (rule sw(1))
  have wfv: "wf_world v" using a by simp
  have fa: "id' a \<notin> set (map id' (stored v))" using a by simp
  note s1 = saveWork_fresh[OF wfv fa quiet_Nil[of 3]]
  have wf1: "wf_world (after (saveWork [] a v))" by (rule wf_saveWork[OF wfv])
  have st1: "stored (after (saveWork [] a v)) = [a]" using s1(2) a by simp
  have fb: "id' b \<notin> set (map id' (stored (after (saveWork [] a v))))" using a by (simp add: st1)
  note s2 = saveWork_fresh[OF wf1 fb quiet_Nil[of 3]]
  have unf: "saveWorks [a, b] v = \<lparr>calls = [resolve ()],
      after = after (saveWork [] b (after (saveWork [] a v))), unasked = []\<rparr>"
    using s1(1) s2(1) by (simp add: Let_def)
  have st: "stored (after (saveWorks [a, b] v)) = [a, b]"
    unfolding unf using s2(2) a by (simp add: st1)
  have fd: "finite_dates [a, b]" using a by (simp add: finite_dates_def)
  show "calls (getAllWorks engine' [] (after (saveWorks [a, b] v))) = [resolve [b, a]]"
    unfolding getAllWorks_quiet[OF sw(2) quiet_Nil] st Array_sort_finite[OF fd]
    using a by simp
qed

theorem getAllWorks_sorted_descending_witness:
  "finite_dates (stored (after (saveWorks [beta, alpha] Map.empty))) \<and>
   calls (getAllWorks v8_sort [] (after (saveWorks [beta, alpha] Map.empty)))
     = [resolve [beta, alpha]] \<and>
   sorted_wrt (\<lambda>a b. number_ge (createdAt a) (createdAt b)) [beta, alpha] \<and>
   number_ge (createdAt ([beta, alpha] ! 0)) (createdAt ([beta, alpha] ! Suc 0)) \<and>
   wf_world Map.empty \<and> stored Map.empty = [] \<and>
   id' alpha = ''1'' \<and> createdAt alpha = Finite 100 \<and>
   id' beta = ''2'' \<and> createdAt beta = Finite 200 \<and>
   calls (saveWorks [alpha, beta] Map.empty) = [resolve ()] \<and>
   calls (getAllWorks v8_sort [] (after (saveWorks [alpha, beta] Map.empty)))
     = [resolve [beta, alpha]]"
proof -
  let ?w = "after (saveWorks [beta, alpha] Map.empty)"
  have h1: "finite_dates (stored ?w) \<and> calls (getAllWorks v8_sort [] ?w) = [resolve [beta, alpha]]"
    by code_simp
  have h2: "wf_world Map.empty \<and> stored Map.empty = [] \<and>
     id' alpha = ''1'' \<and> createdAt alpha = Finite 100 \<and>
     id' beta = ''2'' \<and> createdAt beta = Finite 200"
    by code_simp
  note t = getAllWorks_sorted_descending[where w = ?w and engine = v8_sort and as = "[]"
      and xs = "[beta, alpha]" and v = Map.empty and a = alpha and b = beta
      and engine' = v8_sort]
  from t h1 have c1: "sorted_wrt (\<lambda>a b. number_ge (createdAt a) (createdAt b)) [beta, alpha]"
    and c2: "\<forall>i. Suc i < length [beta, alpha] \<longrightarrow>
        number_ge (createdAt ([beta, alpha] ! i)) (createdAt ([beta, alpha] ! Suc i))"
    by blast+
  from c2 have c3: "number_ge (createdAt ([beta, alpha] ! 0)) (createdAt ([beta, alpha] ! Suc 0))"
    by simp
  from t h2 have c4: "calls (saveWorks [alpha, beta] Map.empty) = [resolve ()]"
    "calls (getAllWorks v8_sort [] (after (saveWorks [alpha, beta] Map.empty)))
       = [resolve [beta, alpha]]"
    by blast+
  show ?thesis using h1 h2 c1 c3 c4 by blast
qed

text \<open>
  With a \<open>createdAt\<close> that is NaN the comparator \<open>b.createdAt - a.createdAt\<close> returns
  NaN and the list is not in descending order: on the example engine the records come
  back in key order, 1, NaN, 3.
\<close>

theorem getAllWorks_unsorted_with_NaN:
  "calls (getAllWorks v8_sort [] (after (saveWorks three Map.empty)))
     = [resolve [work ''1'' (Finite 1), work ''2'' NaN, work ''3'' (Finite 3)]] \<and>
   \<not> number_ge (createdAt (work ''1'' (Finite 1))) (createdAt (work ''2'' NaN)) \<and>
   \<not> number_ge (createdAt (work ''2'' NaN)) (createdAt (work ''3'' (Finite 3))) \<and>
   \<not> number_ge (createdAt (work ''1'' (Finite 1))) (createdAt (work ''3'' (Finite 3)))"
  by code_simp

text \<open>
  C3. In a state whose collection holds a record with the id of \<open>r\<close>, \<open>saveWork r\<close>
  rejects whatever the engine answers, by one call of \<open>reject\<close>, and with
  \<open>ConstraintError\<close> (the engine's duplicate-key error) when the engine reports no
  error of its own. Nothing is overwritten: the state after the call is the state
  before it, so the stored record is still there, the collection is the same, and
  every later \<open>getAllWorks\<close> behaves as it would have without the call.
\<close>

theorem saveWork_duplicate_id:
  "wf_world w \<and> r0 \<in> set (stored w) \<and> id' r = id' r0 \<longrightarrow>
     (\<exists>e. calls (saveWork as r w) = [reject e]) \<and>
     (quiet 2 as \<longrightarrow> calls (saveWork as r w) = [reject ConstraintError]) \<and>
     after (saveWork as r w) = w \<and>
     r0 \<in> set (stored (after (saveWork as r w))) \<and>
     stored (after (saveWork as r w)) = stored w \<and>
     getAllWorks engine as' (after (saveWork as r w)) = getAllWorks engine as' w"
proof (intro impI)
  assume a: "wf_world w \<and> r0 \<in> set (stored w) \<and> id' r = id' r0"
  then obtain d where d: "w DB_NAME = Some d" using stored_nonempty_db by blast
  have op: "opened w = w" using d by (simp add: opened_def)
  have dup: "id' r \<in> set (map id' (stored w))" using a by auto
  have sv: "saveWork as r w =
     (case next_answer as of
        Some e \<Rightarrow> \<lparr>calls = [reject e], after = w, unasked = tl as\<rparr>
      | None \<Rightarrow>
         (case next_answer (tl as) of
            Some e \<Rightarrow> \<lparr>calls = [reject e], after = w, unasked = tl (tl as)\<rparr>
          | None \<Rightarrow> \<lparr>calls = [reject ConstraintError], after = w, unasked = tl (tl as)\<rparr>))"
    using a dup by (simp add: saveWork_wf op split: option.splits)
  have st: "after (saveWork as r w) = w"
    unfolding sv by (simp split: option.splits)
  show "(\<exists>e. calls (saveWork as r w) = [reject e]) \<and>
     (quiet 2 as \<longrightarrow> calls (saveWork as r w) = [reject ConstraintError]) \<and>
     after (saveWork as r w) = w \<and>
     r0 \<in> set (stored (after (saveWork as r w))) \<and>
     stored (after (saveWork as r w)) = stored w \<and>
     getAllWorks engine as' (after (saveWork as r w)) = getAllWorks engine as' w"
    unfolding st using a by (auto simp: sv quiet_2 split: option.splits)
qed

theorem saveWork_duplicate_id_witness:
  "wf_world (after (saveWorks [alpha] Map.empty)) \<and>
   alpha \<in> set (stored (after (saveWorks [alpha] Map.empty))) \<and> id' alpha2 = id' alpha \<and>
   quiet 2 [] \<and>
   calls (saveWork [] alpha2 (after (saveWorks [alpha] Map.empty))) = [reject ConstraintError] \<and>
   after (saveWork [] alpha2 (after (saveWorks [alpha] Map.empty)))
     = after (saveWorks [alpha] Map.empty) \<and>
   stored (after (saveWork [] alpha2 (after (saveWorks [alpha] Map.empty)))) = [alpha] \<and>
   calls (getAllWorks v8_sort [] (after (saveWork [] alpha2 (after (saveWorks [alpha] Map.empty)))))
     = [resolve [alpha]]"
proof -
  let ?w = "after (saveWorks [alpha] Map.empty)"
  have h: "wf_world ?w \<and> alpha \<in> set (stored ?w) \<and> id' alpha2 = id' alpha"
    by code_simp
  have f: "quiet 2 []" by (rule quiet_Nil)
  have s: "stored ?w = [alpha]" by code_simp
  have g: "calls (getAllWorks v8_sort [] ?w) = [resolve [alpha]]" by code_simp
  note t = saveWork_duplicate_id[where w = ?w and ?r0.0 = alpha and r = alpha2
      and as = "[]" and as' = "[]" and engine = v8_sort]
  from t h f have
    "calls (saveWork [] alpha2 ?w) = [reject ConstraintError]"
    "after (saveWork [] alpha2 ?w) = ?w"
    "stored (after (saveWork [] alpha2 ?w)) = stored ?w"
    "getAllWorks v8_sort [] (after (saveWork [] alpha2 ?w)) = getAllWorks v8_sort [] ?w"
    by blast+
  then show ?thesis
    using h f s g by (simp del: saveWorks.simps)
qed

text \<open>
  C4. On a store without records, \<open>getAllWorks\<close> resolves with the empty list, both
  right after \<open>initDB\<close> has created the database in a profile that had none and when
  nothing has opened the database yet.
\<close>

theorem getAllWorks_empty_store:
  "(wf_world w \<and> stored w = [] \<longrightarrow> calls (getAllWorks engine [] w) = [resolve []]) \<and>
   calls (initDB [] Map.empty) = [resolve \<lparr>name = DB_NAME\<rparr>] \<and>
   stored (after (initDB [] Map.empty)) = [] \<and>
   calls (getAllWorks engine [] (after (initDB [] Map.empty))) = [resolve []] \<and>
   calls (getAllWorks engine [] Map.empty) = [resolve []]"
proof -
  have gen: "calls (getAllWorks engine [] u) = [resolve []]" if "wf_world u" "stored u = []" for u
    using that by (simp add: getAllWorks_quiet quiet_Nil Array_sort_Nil)
  have i: "initDB [] Map.empty
      = \<lparr>calls = [resolve \<lparr>name = DB_NAME\<rparr>], after = opened Map.empty, unasked = []\<rparr>"
    by (simp add: initDB_wf wf_empty next_answer_simps)
  have e: "stored Map.empty = []"
    by (simp add: stored_def)
  have s: "stored (opened Map.empty) = []"
    unfolding stored_opened by (rule e)
  show ?thesis
    using gen[of w] gen[of "opened Map.empty"] gen[of Map.empty]
    by (simp add: i s e wf_opened wf_empty)
qed

theorem getAllWorks_empty_store_witness:
  "wf_world (after (initDB [] Map.empty)) \<and> stored (after (initDB [] Map.empty)) = [] \<and>
   calls (getAllWorks v8_sort [] (after (initDB [] Map.empty))) = [resolve []]"
proof -
  have h: "wf_world (after (initDB [] Map.empty)) \<and> stored (after (initDB [] Map.empty)) = []"
    by code_simp
  show ?thesis
    using getAllWorks_empty_store[where w = "after (initDB [] Map.empty)" and engine = v8_sort] h
    by blast
qed

text \<open>
  C5. When the engine answers the open requests, \<open>initDB\<close> resolves on every call,
  however many calls came before, always with the connection to the same database; from
  the second call on it changes nothing, no call changes the records of the
  collection, and a transaction on the collection can be started from the connection.
  A call of \<open>initDB\<close> rejects only with an error of the engine's open request.
\<close>

theorem initDB_idempotent:
  "wf_world w \<longrightarrow>
     calls (initDB [] w) = [resolve \<lparr>name = DB_NAME\<rparr>] \<and>
     initDB [] (after (initDB [] w))
       = \<lparr>calls = [resolve \<lparr>name = DB_NAME\<rparr>], after = after (initDB [] w), unasked = []\<rparr> \<and>
     (\<forall>n. initDB [] (run (replicate (Suc n) (InitDB [])) w)
            = \<lparr>calls = [resolve \<lparr>name = DB_NAME\<rparr>], after = after (initDB [] w), unasked = []\<rparr>) \<and>
     stored (after (initDB [] w)) = stored w \<and>
     (\<forall>mode. transaction \<lparr>name = DB_NAME\<rparr> [STORE_NAME] mode (after (initDB [] w))
            = Inr \<lparr>tx_db = DB_NAME, tx_scope = [STORE_NAME], tx_mode = mode\<rparr>) \<and>
     (\<forall>as e. calls (initDB as w) = [reject e] \<longrightarrow> next_answer as = Some e)"
proof (intro impI)
  assume wf: "wf_world w"
  have i: "initDB [] w = \<lparr>calls = [resolve \<lparr>name = DB_NAME\<rparr>], after = opened w, unasked = []\<rparr>"
    using initDB_wf[OF wf, of "[]"] by (simp add: next_answer_simps)
  have ii: "initDB [] (opened w)
      = \<lparr>calls = [resolve \<lparr>name = DB_NAME\<rparr>], after = opened w, unasked = []\<rparr>"
    using initDB_wf[OF wf_opened[OF wf], of "[]"] by (simp add: opened_opened next_answer_simps)
  have fl: "next_answer as = Some e" if "calls (initDB as w) = [reject e]" for as e
    using that initDB_wf[OF wf, of as] initDB_fault[of as _ w]
    by (cases "next_answer as") auto
  show "calls (initDB [] w) = [resolve \<lparr>name = DB_NAME\<rparr>] \<and>
     initDB [] (after (initDB [] w))
       = \<lparr>calls = [resolve \<lparr>name = DB_NAME\<rparr>], after = after (initDB [] w), unasked = []\<rparr> \<and>
     (\<forall>n. initDB [] (run (replicate (Suc n) (InitDB [])) w)
            = \<lparr>calls = [resolve \<lparr>name = DB_NAME\<rparr>], after = after (initDB [] w), unasked = []\<rparr>) \<and>
     stored (after (initDB [] w)) = stored w \<and>
     (\<forall>mode. transaction \<lparr>name = DB_NAME\<rparr> [STORE_NAME] mode (after (initDB [] w))
            = Inr \<lparr>tx_db = DB_NAME, tx_scope = [STORE_NAME], tx_mode = mode\<rparr>) \<and>
     (\<forall>as e. calls (initDB as w) = [reject e] \<longrightarrow> next_answer as = Some e)"
    unfolding run_InitDB_wf[OF wf] i using fl
    by (simp add: ii stored_opened transaction_opened[OF wf])
qed

theorem initDB_idempotent_witness:
  "wf_world Map.empty \<and>
   calls (initDB [] Map.empty) = [resolve \<lparr>name = DB_NAME\<rparr>] \<and>
   initDB [] (run [InitDB [], InitDB [], InitDB []] Map.empty)
     = \<lparr>calls = [resolve \<lparr>name = DB_NAME\<rparr>], after = after (initDB [] Map.empty), unasked = []\<rparr> \<and>
   stored (after (initDB [] Map.empty)) = []"
proof -
  have h: "wf_world Map.empty" by code_simp
  have s: "stored Map.empty = []" by code_simp
  note t = initDB_idempotent[where w = Map.empty]
  from t h have c1: "calls (initDB [] Map.empty) = [resolve \<lparr>name = DB_NAME\<rparr>]"
    and c2: "\<forall>n. initDB [] (run (replicate (Suc n) (InitDB [])) Map.empty)
            = \<lparr>calls = [resolve \<lparr>name = DB_NAME\<rparr>], after = after (initDB [] Map.empty),
               unasked = []\<rparr>"
    and c3: "stored (after (initDB [] Map.empty)) = stored Map.empty"
    by blast+
  from c2 have "initDB [] (run (replicate (Suc (Suc (Suc 0))) (InitDB [])) Map.empty)
            = \<lparr>calls = [resolve \<lparr>name = DB_NAME\<rparr>], after = after (initDB [] Map.empty),
               unasked = []\<rparr>"
    by blast
  then have c4: "initDB [] (run [InitDB [], InitDB [], InitDB []] Map.empty)
     = \<lparr>calls = [resolve \<lparr>name = DB_NAME\<rparr>], after = after (initDB [] Map.empty), unasked = []\<rparr>"
    by simp
  show ?thesis using h s c1 c3 c4 by simp
qed

text \<open>
  C6. \<open>saveWork\<close> and \<open>getAllWorks\<close> open the database themselves. In a profile
  without the database both succeed, \<open>getAllWorks\<close> leaving the state \<open>initDB\<close>
  leaves; calling \<open>initDB\<close> beforehand changes neither the outcome of either call nor
  the records stored after it; and whenever opening fails, both reject with the error
  of the open request.
\<close>

theorem calls_open_the_database:
  "(w DB_NAME = None \<longrightarrow>
      calls (saveWork [] r w) = [resolve ()] \<and>
      stored (after (saveWork [] r w)) = [r] \<and>
      calls (getAllWorks engine [] w) = [resolve []] \<and>
      after (getAllWorks engine [] w) = after (initDB [] w)) \<and>
   (wf_world v \<longrightarrow>
      calls (saveWork as r v) = calls (saveWork as r (after (initDB [] v))) \<and>
      stored (after (saveWork as r v)) = stored (after (saveWork as r (after (initDB [] v)))) \<and>
      calls (getAllWorks engine as v) = calls (getAllWorks engine as (after (initDB [] v)))) \<and>
   (calls (initDB as' u) = [reject e] \<longrightarrow>
      saveWork as' r u = \<lparr>calls = [reject e], after = u, unasked = tl as'\<rparr> \<and>
      getAllWorks engine as' u = \<lparr>calls = [reject e], after = u, unasked = tl as'\<rparr>)"
proof (intro conjI impI)
  assume n: "w DB_NAME = None"
  then have wf: "wf_world w" and st: "stored w = []"
    by (simp_all add: wf_world_def stored_def)
  have fr: "id' r \<notin> set (map id' (stored w))" by (simp add: st)
  show "calls (saveWork [] r w) = [resolve ()]"
    by (rule saveWork_fresh(1)[OF wf fr quiet_Nil])
  show "stored (after (saveWork [] r w)) = [r]"
    using saveWork_fresh(2)[OF wf fr quiet_Nil[of 3]] st by simp
  show "calls (getAllWorks engine [] w) = [resolve []]"
    by (simp add: getAllWorks_quiet[OF wf quiet_Nil] st Array_sort_Nil)
  show "after (getAllWorks engine [] w) = after (initDB [] w)"
    by (simp add: getAllWorks_quiet[OF wf quiet_Nil] initDB_wf[OF wf] next_answer_simps)
next
  assume wf: "wf_world v"
  have i: "after (initDB [] v) = opened v" by (simp add: initDB_wf[OF wf] next_answer_simps)
  have wfo: "wf_world (opened v)" by (rule wf_opened[OF wf])
  obtain d where d: "opened v DB_NAME = Some d" using opened_Some by blast
  have sv: "calls (saveWork as r v) = calls (saveWork as r (opened v)) \<and>
      stored (after (saveWork as r v)) = stored (after (saveWork as r (opened v)))"
    by (auto simp: saveWork_wf[OF wf] saveWork_wf[OF wfo] stored_opened opened_opened
        split: option.splits)
  show "calls (saveWork as r v) = calls (saveWork as r (after (initDB [] v)))"
    unfolding i using sv by blast
  show "stored (after (saveWork as r v)) = stored (after (saveWork as r (after (initDB [] v))))"
    unfolding i using sv by blast
  show "calls (getAllWorks engine as v) = calls (getAllWorks engine as (after (initDB [] v)))"
    unfolding i
    by (simp add: getAllWorks_wf[OF wf] getAllWorks_wf[OF wfo] stored_opened
        split: option.splits)
next
  assume f: "calls (initDB as' u) = [reject e]"
  show "saveWork as' r u = \<lparr>calls = [reject e], after = u, unasked = tl as'\<rparr>"
    by (rule saveWork_reject_open[OF f])
  show "getAllWorks engine as' u = \<lparr>calls = [reject e], after = u, unasked = tl as'\<rparr>"
    by (rule getAllWorks_reject_open[OF f])
qed

theorem calls_open_the_database_witness:
  "Map.empty DB_NAME = (None :: database option) \<and>
   calls (saveWork [] alpha Map.empty) = [resolve ()] \<and>
   stored (after (saveWork [] alpha Map.empty)) = [alpha] \<and>
   calls (getAllWorks v8_sort [] Map.empty) = [resolve []] \<and>
   wf_world (after (saveWorks [alpha] Map.empty)) \<and>
   calls (getAllWorks v8_sort [] (after (initDB [] (after (saveWorks [alpha] Map.empty)))))
     = [resolve [alpha]] \<and>
   calls (initDB denied newer) = [reject SecurityError] \<and>
   saveWork denied alpha newer = \<lparr>calls = [reject SecurityError], after = newer, unasked = []\<rparr> \<and>
   getAllWorks v8_sort denied newer
     = \<lparr>calls = [reject SecurityError], after = newer, unasked = []\<rparr>"
proof -
  let ?v = "after (saveWorks [alpha] Map.empty)"
  have h1: "Map.empty DB_NAME = (None :: database option)" by simp
  have h2: "wf_world ?v" by code_simp
  have h3: "calls (initDB denied newer) = [reject SecurityError]" by code_simp
  have g: "calls (getAllWorks v8_sort [] ?v) = [resolve [alpha]]" by code_simp
  have tl: "tl denied = []" by (simp add: denied_def)
  note t = calls_open_the_database[where w = Map.empty and r = alpha and v = ?v
      and as = "[]" and as' = denied and u = newer and e = SecurityError and engine = v8_sort]
  from t h1 have c1: "calls (saveWork [] alpha Map.empty) = [resolve ()]"
    "stored (after (saveWork [] alpha Map.empty)) = [alpha]"
    "calls (getAllWorks v8_sort [] Map.empty) = [resolve []]"
    by blast+
  from t h2 have c2: "calls (getAllWorks v8_sort [] ?v)
      = calls (getAllWorks v8_sort [] (after (initDB [] ?v)))"
    by blast
  from t h3 have c3:
    "saveWork denied alpha newer = \<lparr>calls = [reject SecurityError], after = newer, unasked = tl denied\<rparr>"
    "getAllWorks v8_sort denied newer
       = \<lparr>calls = [reject SecurityError], after = newer, unasked = tl denied\<rparr>"
    by blast+
  show ?thesis
    using h1 h2 h3 c1 c2[symmetric] c3 g by (simp add: tl del: saveWorks.simps)
qed




text \<open>
  C8. No call of the store, whatever the engine answers, removes or changes a stored
  record: every record of the collection before a call (or a sequence of calls) is a
  record of the collection after it, equal in every field. If the ids were pairwise
  distinct before, they are after; and they are in every state reached from a
  well-formed one.
\<close>

theorem stored_records_never_change:
  "(\<forall>r\<in>set (stored w). r \<in> set (stored (step op w))) \<and>
   (distinct (map id' (stored w)) \<longrightarrow> distinct (map id' (stored (step op w)))) \<and>
   (\<forall>r\<in>set (stored w). r \<in> set (stored (run ops w))) \<and>
   (distinct (map id' (stored w)) \<longrightarrow> distinct (map id' (stored (run ops w)))) \<and>
   (wf_world v \<longrightarrow> distinct (map id' (stored (run ops v))))"
  using step_keeps[of w op] run_keeps[of w ops] step_distinct[of w op] run_distinct[of w ops]
    wf_distinct[OF wf_run, of v ops]
  by blast

theorem stored_records_never_change_witness:
  "alpha \<in> set (stored (after (saveWorks [alpha, beta] Map.empty))) \<and>
   distinct (map id' (stored (after (saveWorks [alpha, beta] Map.empty)))) \<and>
   wf_world Map.empty \<and>
   alpha \<in> set (stored (step (SaveWork [] alpha2) (after (saveWorks [alpha, beta] Map.empty)))) \<and>
   distinct (map id'
     (stored (step (SaveWork [] alpha2) (after (saveWorks [alpha, beta] Map.empty))))) \<and>
   alpha \<in> set (stored (run [SaveWork commit_aborts gamma, GetAllWorks v8_sort full, InitDB denied]
                   (after (saveWorks [alpha, beta] Map.empty)))) \<and>
   distinct (map id'
     (stored (run [SaveWork commit_aborts gamma, GetAllWorks v8_sort full, InitDB denied]
        Map.empty)))"
proof -
  let ?w = "after (saveWorks [alpha, beta] Map.empty)"
  let ?ops = "[SaveWork commit_aborts gamma, GetAllWorks v8_sort full, InitDB denied]"
  have h1: "alpha \<in> set (stored ?w)" by code_simp
  have h2: "distinct (map id' (stored ?w))" by code_simp
  have h3: "wf_world Map.empty" by code_simp
  note t = stored_records_never_change[where w = ?w and op = "SaveWork [] alpha2"
      and ops = ?ops and v = Map.empty]
  from t h1 have c1: "alpha \<in> set (stored (step (SaveWork [] alpha2) ?w))"
    and c3: "alpha \<in> set (stored (run ?ops ?w))"
    by blast+
  from t h2 have c2: "distinct (map id' (stored (step (SaveWork [] alpha2) ?w)))"
    by blast
  from t h3 have c4: "distinct (map id' (stored (run ?ops Map.empty)))"
    by blast
  show ?thesis using h1 h2 h3 c1 c2 c3 c4 by blast
qed

text \<open>
  C9. In a state whose records all have a finite \<open>createdAt\<close>, whatever the engine:
  of two records with the same \<open>createdAt\<close> in a list \<open>getAllWorks\<close> resolves with,
  the earlier one has the smaller id in the lexicographic order of strings, and the
  list depends on the stored records only, two states with the same set of records
  giving the same list. In any state the list depends only on the stored records and
  the engine.
\<close>

theorem getAllWorks_tie_order:
  "(wf_world w \<and> finite_dates (stored w) \<and> calls (getAllWorks engine as w) = [resolve xs] \<longrightarrow>
      (\<forall>i j. i < j \<and> j < length xs \<and> createdAt (xs ! i) = createdAt (xs ! j) \<longrightarrow>
         id' (xs ! i) < id' (xs ! j) \<and>
         (id' (xs ! i), id' (xs ! j)) \<in> lexord {(c, d). c < d})) \<and>
   (wf_world v \<and> wf_world v' \<and> set (stored v) = set (stored v') \<and> finite_dates (stored v) \<and>
    calls (getAllWorks engine1 as1 v) = [resolve ys] \<and>
    calls (getAllWorks engine2 as2 v') = [resolve zs] \<longrightarrow> ys = zs) \<and>
   (wf_world u \<and> wf_world u' \<and> set (stored u) = set (stored u') \<and>
    calls (getAllWorks engine3 as3 u) = [resolve ys'] \<and>
    calls (getAllWorks engine3 as4 u') = [resolve zs'] \<longrightarrow> ys' = zs')"
proof (intro conjI impI allI)
  fix i j
  assume a: "wf_world w \<and> finite_dates (stored w) \<and> calls (getAllWorks engine as w) = [resolve xs]"
    and ij: "i < j \<and> j < length xs \<and> createdAt (xs ! i) = createdAt (xs ! j)"
  have xs: "xs = Array_sort engine (\<lambda>a b. number_minus (createdAt b) (createdAt a)) (stored w)"
    using a getAllWorks_cases[of engine as w] by auto
  have "sorted_wrt (\<lambda>a b. createdAt a = createdAt b \<longrightarrow> id' a < id' b) xs"
    unfolding xs using a by (intro tie_Array_sort wf_sorted) simp_all
  then show lt: "id' (xs ! i) < id' (xs ! j)"
    using ij by (auto simp: sorted_wrt_iff_nth_less)
  then show "(id' (xs ! i), id' (xs ! j)) \<in> lexord {(c, d). c < d}"
    by (simp add: list_less_def)
next
  assume a: "wf_world v \<and> wf_world v' \<and> set (stored v) = set (stored v') \<and>
    finite_dates (stored v) \<and>
    calls (getAllWorks engine1 as1 v) = [resolve ys] \<and>
    calls (getAllWorks engine2 as2 v') = [resolve zs]"
  then have eq: "stored v = stored v'" using wf_stored_unique by blast
  have fd: "finite_dates (stored v)" using a by simp
  have "ys = Array_sort engine1 (\<lambda>a b. number_minus (createdAt b) (createdAt a)) (stored v)"
    using a getAllWorks_cases[of engine1 as1 v] by auto
  moreover have "zs = Array_sort engine2 (\<lambda>a b. number_minus (createdAt b) (createdAt a)) (stored v)"
    using a getAllWorks_cases[of engine2 as2 v'] by (auto simp: eq)
  ultimately show "ys = zs" by (simp add: Array_sort_finite[OF fd])
next
  assume a: "wf_world u \<and> wf_world u' \<and> set (stored u) = set (stored u') \<and>
    calls (getAllWorks engine3 as3 u) = [resolve ys'] \<and>
    calls (getAllWorks engine3 as4 u') = [resolve zs']"
  then have eq: "stored u = stored u'" using wf_stored_unique by blast
  have "ys' = Array_sort engine3 (\<lambda>a b. number_minus (createdAt b) (createdAt a)) (stored u)"
    using a getAllWorks_cases[of engine3 as3 u] by auto
  moreover have "zs' = Array_sort engine3 (\<lambda>a b. number_minus (createdAt b) (createdAt a)) (stored u)"
    using a getAllWorks_cases[of engine3 as4 u'] by (auto simp: eq)
  ultimately show "ys' = zs'" by simp
qed

theorem getAllWorks_tie_order_witness:
  "wf_world (after (saveWorks [alpha, beta, gamma] Map.empty)) \<and>
   finite_dates (stored (after (saveWorks [alpha, beta, gamma] Map.empty))) \<and>
   calls (getAllWorks v8_sort [] (after (saveWorks [alpha, beta, gamma] Map.empty)))
     = [resolve [gamma, beta, alpha]] \<and>
   createdAt ([gamma, beta, alpha] ! 0) = createdAt ([gamma, beta, alpha] ! 1) \<and>
   id' gamma < id' beta \<and> (id' gamma, id' beta) \<in> lexord {(c, d). c < d} \<and>
   wf_world (after (saveWorks [gamma, alpha, beta] Map.empty)) \<and>
   set (stored (after (saveWorks [alpha, beta, gamma] Map.empty)))
     = set (stored (after (saveWorks [gamma, alpha, beta] Map.empty))) \<and>
   calls (getAllWorks stable_sort [] (after (saveWorks [gamma, alpha, beta] Map.empty)))
     = [resolve [gamma, beta, alpha]]"
proof -
  let ?w = "after (saveWorks [alpha, beta, gamma] Map.empty)"
  let ?v = "after (saveWorks [gamma, alpha, beta] Map.empty)"
  have h1: "wf_world ?w \<and> finite_dates (stored ?w)" by code_simp
  have h2: "calls (getAllWorks v8_sort [] ?w) = [resolve [gamma, beta, alpha]]" by code_simp
  have h3: "createdAt ([gamma, beta, alpha] ! 0) = createdAt ([gamma, beta, alpha] ! 1)"
    by code_simp
  have h4: "wf_world ?v" by code_simp
  have h5: "set (stored ?w) = set (stored ?v)" by code_simp
  have h6: "calls (getAllWorks stable_sort [] ?v) = [resolve [gamma, beta, alpha]]" by code_simp
  note t = getAllWorks_tie_order[where w = ?w and engine = v8_sort and as = "[]"
        and xs = "[gamma, beta, alpha]"
        and v = ?w and v' = ?v and ?engine1.0 = v8_sort and ?engine2.0 = stable_sort
        and ?as1.0 = "[]" and ?as2.0 = "[]"
        and ys = "[gamma, beta, alpha]" and zs = "[gamma, beta, alpha]"]
  from t h1 h2 have "\<forall>i j. i < j \<and> j < length [gamma, beta, alpha] \<and>
      createdAt ([gamma, beta, alpha] ! i) = createdAt ([gamma, beta, alpha] ! j) \<longrightarrow>
         id' ([gamma, beta, alpha] ! i) < id' ([gamma, beta, alpha] ! j) \<and>
         (id' ([gamma, beta, alpha] ! i), id' ([gamma, beta, alpha] ! j)) \<in> lexord {(c, d). c < d}"
    by blast
  then have "0 < (1::nat) \<and> (1::nat) < length [gamma, beta, alpha] \<and>
      createdAt ([gamma, beta, alpha] ! 0) = createdAt ([gamma, beta, alpha] ! 1) \<longrightarrow>
         id' ([gamma, beta, alpha] ! 0) < id' ([gamma, beta, alpha] ! 1) \<and>
         (id' ([gamma, beta, alpha] ! 0), id' ([gamma, beta, alpha] ! 1)) \<in> lexord {(c, d). c < d}"
    by blast
  then have t1: "id' gamma < id' beta \<and> (id' gamma, id' beta) \<in> lexord {(c, d). c < d}"
    using h3 by simp
  show ?thesis
    using t1 h1 h2 h3 h4 h5 h6 by blast
qed

text \<open>
  With records whose \<open>createdAt\<close> is NaN the comparator is not consistent and the
  order is the engine's. On the example engine, with the \<open>createdAt\<close> values NaN,
  NaN, 1, NaN, 2, 3, 2 in key order, the record with id 7 comes before the record with
  id 5, both with \<open>createdAt\<close> 2.
\<close>

theorem ties_out_of_key_order_with_NaN:
  "wf_world (after (saveWorks seven Map.empty)) \<and>
   calls (getAllWorks v8_sort [] (after (saveWorks seven Map.empty)))
     = [resolve [work ''1'' NaN, work ''2'' NaN, work ''6'' (Finite 3), work ''7'' (Finite 2),
                 work ''3'' (Finite 1), work ''4'' NaN, work ''5'' (Finite 2)]] \<and>
   createdAt (work ''7'' (Finite 2)) = createdAt (work ''5'' (Finite 2)) \<and>
   \<not> id' (work ''7'' (Finite 2)) < id' (work ''5'' (Finite 2))"
  by code_simp

text \<open>
  C10. When the engine answers the requests and no stored record has the id of \<open>r\<close>,
  \<open>saveWork r\<close> resolves and stores \<open>r\<close> as it is, at the place of its key. Nothing
  else about \<open>r\<close> is looked at: the same holds with an empty title, an empty
  description and any string as category.
\<close>

theorem saveWork_no_field_validation:
  "wf_world w \<and> id' r \<notin> set (map id' (stored w)) \<longrightarrow>
     calls (saveWork [] r w) = [resolve ()] \<and>
     stored (after (saveWork [] r w)) = insort_key id' r (stored w) \<and>
     r \<in> set (stored (after (saveWork [] r w))) \<and>
     (\<forall>c. calls (saveWork [] (r\<lparr>title := [], description := [], category := c\<rparr>) w) = [resolve ()] \<and>
          r\<lparr>title := [], description := [], category := c\<rparr>
            \<in> set (stored (after (saveWork []
                    (r\<lparr>title := [], description := [], category := c\<rparr>) w))))"
proof (intro impI)
  assume a: "wf_world w \<and> id' r \<notin> set (map id' (stored w))"
  have gen: "calls (saveWork [] x w) = [resolve ()] \<and>
      stored (after (saveWork [] x w)) = insort_key id' x (stored w) \<and>
      x \<in> set (stored (after (saveWork [] x w)))" if "id' x = id' r" for x
    using a that saveWork_fresh[of w x "[]"] by (simp add: set_insort_key quiet_Nil)
  show "calls (saveWork [] r w) = [resolve ()] \<and>
     stored (after (saveWork [] r w)) = insort_key id' r (stored w) \<and>
     r \<in> set (stored (after (saveWork [] r w))) \<and>
     (\<forall>c. calls (saveWork [] (r\<lparr>title := [], description := [], category := c\<rparr>) w) = [resolve ()] \<and>
          r\<lparr>title := [], description := [], category := c\<rparr>
            \<in> set (stored (after (saveWork []
                    (r\<lparr>title := [], description := [], category := c\<rparr>) w))))"
    using gen[of r] gen[of "r\<lparr>title := [], description := [], category := c\<rparr>" for c]
    by (simp add: set_insort_key)
qed

theorem saveWork_no_field_validation_witness:
  "wf_world (after (saveWorks [alpha, beta] Map.empty)) \<and>
   id' gamma \<notin> set (map id' (stored (after (saveWorks [alpha, beta] Map.empty)))) \<and>
   title gamma = [] \<and> description gamma = [] \<and>
   category gamma \<notin> {BRAND, VIDEO, EXHIBITION} \<and>
   calls (saveWork [] gamma (after (saveWorks [alpha, beta] Map.empty))) = [resolve ()] \<and>
   stored (after (saveWork [] gamma (after (saveWorks [alpha, beta] Map.empty))))
     = [alpha, gamma, beta]"
proof -
  let ?w = "after (saveWorks [alpha, beta] Map.empty)"
  have h: "wf_world ?w \<and> id' gamma \<notin> set (map id' (stored ?w))" by code_simp
  have k: "title gamma = [] \<and> description gamma = [] \<and>
     category gamma \<notin> {BRAND, VIDEO, EXHIBITION}" by code_simp
  have s: "insort_key id' gamma (stored ?w) = [alpha, gamma, beta]" by code_simp
  note t = saveWork_no_field_validation[where w = ?w and r = gamma]
  from t h have "calls (saveWork [] gamma ?w) = [resolve ()]"
    "stored (after (saveWork [] gamma ?w)) = insort_key id' gamma (stored ?w)"
    by blast+
  then show ?thesis using h k s by (simp del: saveWorks.simps)
qed

end
